theory Spec2Isabelle
  imports Main "HOL-Library.Word"
begin

section \<open>QMK\_Interface.py: the HID command-packet layer\<close>

text \<open>
  Python integers are \<open>int\<close>. What crosses the HID transport is a \<open>bytes\<close> object, a
  list of 8-bit words. Every exception the module can raise is a constructor of
  \<open>error\<close>; a function that mutates the keyboard object returns the new object beside
  its result.
\<close>

type_synonym byte = "8 word"

datatype error =
    CouldNotFindKeyboard
  | KeyboardDisconnected
  | CorruptResponse
  | UnknownCommand
  | DataPacketTooLarge
  | ValueError
  | IndexError
  | UnicodeDecodeError
  | RecursionError

subsection \<open>Python values returned by the parser\<close>

text \<open>
  \<open>parse_commands\<close> returns \<open>None\<close> or a dict with the keys \<open>'command'\<close> and
  \<open>'data'\<close>; the polling loop compares that result with an integer constant.
  \<open>py_eq_int v n\<close> is Python's \<open>v == n\<close> for an integer \<open>n\<close>: only an integer can
  be equal to an integer, \<open>None\<close> and a dict never are.
\<close>

datatype pyobj = PyNone | PyInt int | PyDict "(string \<times> pyobj) list"

fun py_eq_int :: "pyobj \<Rightarrow> int \<Rightarrow> bool" where
  "py_eq_int (PyInt a) n = (a = n)"
| "py_eq_int PyNone n = False"
| "py_eq_int (PyDict kvs) n = False"

subsection \<open>Constants of the module\<close>

text \<open>class SystemMembers(Enum): the lookup \<open>SystemMembers(v)\<close> raises ValueError
  for a value that is no member.\<close>

datatype SystemMembers = switched_out | Fluttershy | Hibiki | Luna

definition SystemMembers_lookup :: "int \<Rightarrow> error + SystemMembers" where
  "SystemMembers_lookup v =
     (if v = 0 then Inr switched_out
      else if v = 1 then Inr Fluttershy
      else if v = 2 then Inr Hibiki
      else if v = 3 then Inr Luna
      else Inl ValueError)"

record HSV =
  Hue :: int
  Sat :: int
  Val :: int

text \<open>class Commands\<close>

definition Do_Nothing :: int where "Do_Nothing = 0"
definition KB_Set_Fronter :: int where "KB_Set_Fronter = 1"
definition KB_Set_All_RGB_LEDs :: int where "KB_Set_All_RGB_LEDs = 2"
definition KB_Set_RGB_LEDs :: int where "KB_Set_RGB_LEDs = 3"
definition KB_Activity_Ping :: int where "KB_Activity_Ping = 4"
definition PC_Raw_Debug_Msg :: int where "PC_Raw_Debug_Msg = 120"
definition PC_Debug_Msg :: int where "PC_Debug_Msg = 121"
definition PC_Switch_Fronter :: int where "PC_Switch_Fronter = 122"
definition PC_Notify_Layer_Change :: int where "PC_Notify_Layer_Change = 123"
definition PC_Activity_Ping :: int where "PC_Activity_Ping = 124"

subsection \<open>The keyboard object and its environment\<close>

text \<open>
  \<open>hid_call\<close> is one call on the \<open>hid.Device\<close> handle. The keyboard object carries
  the fields of \<open>QMKKeyboard\<close> the packet layer uses: \<open>qmk\<close> is the handle
  (\<open>None\<close> until \<open>open\<close> succeeds; its value is the state of the device behind it),
  \<open>callbacks\<close> is the key set of the callbacks dict. Two fields record what the object
  did: \<open>calls\<close> lists the calls made on the handle, \<open>invoked\<close> the callbacks invoked
  with their argument, oldest first.
\<close>

datatype hid_call = HidWrite "byte list" | HidRead int int

record 'd QMKKeyboard =
  keyboard_type :: string
  packet_size :: int
  qmk :: "'d option"
  connected :: bool
  callbacks :: "int set"
  calls :: "hid_call list"
  invoked :: "(int \<times> pyobj) list"

text \<open>
  What lies outside the module is a parameter: the transport (\<open>hid_write\<close> and
  \<open>hid_read\<close> answer \<open>None\<close> where the library raises \<open>hid.HIDException\<close>, and
  return the device's next state) and the bodies of the registered callbacks
  (\<open>run_callback\<close> answers the exception a handler raises, if any, and the keyboard
  object as the handler leaves it).
\<close>

record 'd env =
  hid_write :: "'d \<Rightarrow> byte list \<Rightarrow> int option \<times> 'd"
  hid_read :: "'d \<Rightarrow> int \<Rightarrow> int \<Rightarrow> byte list option \<times> 'd"
  run_callback :: "int \<Rightarrow> pyobj \<Rightarrow> 'd QMKKeyboard \<Rightarrow> error option \<times> 'd QMKKeyboard"

text \<open>QMKKeyboard.\_\_init\_\_ (both supported models have 32-byte packets).\<close>

definition LILY58 :: string where "LILY58 = ''lily58''"
definition NAVI10 :: string where "NAVI10 = ''navi10''"

definition QMKKeyboard_init :: "string \<Rightarrow> int set \<Rightarrow> error + 'd QMKKeyboard" where
  "QMKKeyboard_init kbtype cbs =
     (if kbtype = LILY58 \<or> kbtype = NAVI10
      then Inr \<lparr>keyboard_type = kbtype, packet_size = 32, qmk = None, connected = False,
                callbacks = cbs, calls = [], invoked = []\<rparr>
      else Inl ValueError)"

subsection \<open>Encoding and sending\<close>

text \<open>\<open>bytes(bytearray(xs))\<close>: ValueError unless every element is in range(256).\<close>

fun bytearray :: "int list \<Rightarrow> byte list option" where
  "bytearray [] = Some []"
| "bytearray (x # xs) =
     (if 0 \<le> x \<and> x < 256
      then (case bytearray xs of None \<Rightarrow> None | Some bs \<Rightarrow> Some (word_of_int x # bs))
      else None)"

definition construct_command_packet :: "int \<Rightarrow> int list \<Rightarrow> int list" where
  "construct_command_packet command_type command_data =
     [0, command_type, int (length command_data)] @ command_data"

definition write_kb ::
  "'d env \<Rightarrow> 'd QMKKeyboard \<Rightarrow> int list \<Rightarrow> (error + int) \<times> 'd QMKKeyboard" where
  "write_kb E kb data_to_write =
     (if int (length data_to_write) > packet_size kb then (Inl DataPacketTooLarge, kb)
      else case qmk kb of
        None \<Rightarrow> (Inl KeyboardDisconnected, kb\<lparr>connected := False\<rparr>)
      | Some d \<Rightarrow>
          (case bytearray data_to_write of
             None \<Rightarrow> (Inl ValueError, kb)
           | Some write_data_bytes \<Rightarrow>
               (case hid_write E d write_data_bytes of
                  (Some num_bytes_writen, d') \<Rightarrow>
                    (Inr num_bytes_writen,
                     kb\<lparr>qmk := Some d', calls := calls kb @ [HidWrite write_data_bytes]\<rparr>)
                | (None, d') \<Rightarrow>
                    (Inl KeyboardDisconnected,
                     kb\<lparr>qmk := Some d', calls := calls kb @ [HidWrite write_data_bytes],
                        connected := False\<rparr>))))"

definition send_command ::
  "'d env \<Rightarrow> 'd QMKKeyboard \<Rightarrow> int \<Rightarrow> int list option \<Rightarrow> (error + int) \<times> 'd QMKKeyboard" where
  "send_command E kb command_type command_data =
     (let command_data' = (case command_data of None \<Rightarrow> [0] | Some xs \<Rightarrow> xs);
          data_packet = construct_command_packet command_type command_data'
      in write_kb E kb data_packet)"

definition send_current_fronter ::
  "'d env \<Rightarrow> 'd QMKKeyboard \<Rightarrow> int \<Rightarrow> (error + unit) \<times> 'd QMKKeyboard" where
  "send_current_fronter E kb qmk_system_id =
     (case SystemMembers_lookup qmk_system_id of
        Inl e \<Rightarrow> (Inl e, kb)
      | Inr _ \<Rightarrow>
          (case send_command E kb KB_Set_Fronter (Some [qmk_system_id]) of
             (Inl e, kb') \<Rightarrow> (Inl e, kb')
           | (Inr _, kb') \<Rightarrow> (Inr (), kb')))"

definition send_activity_ping :: "'d env \<Rightarrow> 'd QMKKeyboard \<Rightarrow> (error + unit) \<times> 'd QMKKeyboard" where
  "send_activity_ping E kb =
     (case send_command E kb KB_Activity_Ping None of
        (Inl e, kb') \<Rightarrow> (Inl e, kb')
      | (Inr _, kb') \<Rightarrow> (Inr (), kb'))"

subsection \<open>Receiving\<close>

definition read ::
  "'d env \<Rightarrow> 'd QMKKeyboard \<Rightarrow> int \<Rightarrow> int \<Rightarrow> (error + int list) \<times> 'd QMKKeyboard" where
  "read E kb timeout len =
     (case qmk kb of
        None \<Rightarrow> (Inl KeyboardDisconnected, kb\<lparr>connected := False\<rparr>)
      | Some d \<Rightarrow>
          (case hid_read E d len timeout of
             (Some data, d') \<Rightarrow>
               (Inr (map uint data),
                kb\<lparr>qmk := Some d', calls := calls kb @ [HidRead len timeout]\<rparr>)
           | (None, d') \<Rightarrow>
               (Inl KeyboardDisconnected,
                kb\<lparr>qmk := Some d', calls := calls kb @ [HidRead len timeout],
                   connected := False\<rparr>)))"

text \<open>
  \<open>int.from_bytes(xs, byteorder='little', signed=False)\<close>. Its argument is a slice of
  what \<open>read\<close> returned, so every element is a byte.
\<close>

fun int_from_bytes_little :: "int list \<Rightarrow> int" where
  "int_from_bytes_little [] = 0"
| "int_from_bytes_little (b # bs) = b + 256 * int_from_bytes_little bs"

text \<open>
  \<open>bytes(xs).decode()\<close> raises UnicodeDecodeError unless the bytes are well-formed
  UTF-8 (no overlong form, no surrogate, nothing above U+10FFFF); \<open>utf8_decodable\<close> is
  that test.
\<close>

definition utf8_cont :: "int \<Rightarrow> bool" where
  "utf8_cont b = (128 \<le> b \<and> b \<le> 191)"

fun utf8_decodable :: "int list \<Rightarrow> bool" where
  "utf8_decodable [] = True"
| "utf8_decodable (b0 # bs) =
     (if b0 < 128 then utf8_decodable bs
      else if 194 \<le> b0 \<and> b0 \<le> 223 then
        (case bs of
           b1 # r \<Rightarrow> utf8_cont b1 \<and> utf8_decodable r
         | _ \<Rightarrow> False)
      else if 224 \<le> b0 \<and> b0 \<le> 239 then
        (case bs of
           b1 # b2 # r \<Rightarrow>
             (if b0 = 224 then 160 \<le> b1 \<and> b1 \<le> 191
              else if b0 = 237 then 128 \<le> b1 \<and> b1 \<le> 159
              else utf8_cont b1)
             \<and> utf8_cont b2 \<and> utf8_decodable r
         | _ \<Rightarrow> False)
      else if 240 \<le> b0 \<and> b0 \<le> 244 then
        (case bs of
           b1 # b2 # b3 # r \<Rightarrow>
             (if b0 = 240 then 144 \<le> b1 \<and> b1 \<le> 191
              else if b0 = 244 then 128 \<le> b1 \<and> b1 \<le> 143
              else utf8_cont b1)
             \<and> utf8_cont b2 \<and> utf8_cont b3 \<and> utf8_decodable r
         | _ \<Rightarrow> False)
      else False)"

text \<open>
  The statement \<open>if command_id in self.callbacks: self.callbacks[command_id](self, arg)\<close>
  (\<open>PyNone\<close> stands for the call without an argument). The result is the exception the
  handler raised, if any.
\<close>

definition call_callback ::
  "'d env \<Rightarrow> 'd QMKKeyboard \<Rightarrow> int \<Rightarrow> pyobj \<Rightarrow> error option \<times> 'd QMKKeyboard" where
  "call_callback E kb command_id arg =
     (if command_id \<in> callbacks kb
      then run_callback E command_id arg (kb\<lparr>invoked := invoked kb @ [(command_id, arg)]\<rparr>)
      else (None, kb))"

text \<open>
  \<open>parse_commands\<close>. The f-string of the log line in the PC\_Switch\_Fronter branch
  evaluates \<open>SystemMembers(new_fronter_qmk_id)\<close>, whatever the log level is.
\<close>

definition parse_commands :: "'d env \<Rightarrow> 'd QMKKeyboard \<Rightarrow> (error + pyobj) \<times> 'd QMKKeyboard" where
  "parse_commands E kb =
     (case read E kb 100 32 of
        (Inl e, kb1) \<Rightarrow>
          (if e = KeyboardDisconnected then (Inr PyNone, kb1) else (Inl e, kb1))
      | (Inr received_data, kb1) \<Rightarrow>
          if length received_data = 0 then (Inr PyNone, kb1)
          else if length received_data < 3 then (Inl CorruptResponse, kb1)
          else
            let command_id = received_data ! 0;
                data_length = received_data ! 1;
                command_data = drop 2 received_data
            in
              if command_id = Do_Nothing then (Inr PyNone, kb1)
              else if command_id = PC_Raw_Debug_Msg then (Inr PyNone, kb1)
              else if command_id = PC_Debug_Msg then
                (if utf8_decodable command_data then (Inr PyNone, kb1)
                 else (Inl UnicodeDecodeError, kb1))
              else if command_id = PC_Switch_Fronter then
                (case command_data of
                   [] \<Rightarrow> (Inl IndexError, kb1)
                 | new_fronter_qmk_id # _ \<Rightarrow>
                     (case SystemMembers_lookup new_fronter_qmk_id of
                        Inl e \<Rightarrow> (Inl e, kb1)
                      | Inr _ \<Rightarrow>
                          let command_info =
                                PyDict [(''command'', PyInt command_id),
                                        (''data'', PyInt new_fronter_qmk_id)]
                          in (case call_callback E kb1 command_id (PyInt new_fronter_qmk_id) of
                                (Some e, kb2) \<Rightarrow> (Inl e, kb2)
                              | (None, kb2) \<Rightarrow> (Inr command_info, kb2))))
              else if command_id = PC_Notify_Layer_Change then
                (let command_data' = take (nat data_length) command_data;
                     layer_mask = int_from_bytes_little command_data'
                 in (case call_callback E kb1 command_id (PyInt layer_mask) of
                       (Some e, kb2) \<Rightarrow> (Inl e, kb2)
                     | (None, kb2) \<Rightarrow>
                         (Inr (PyDict [(''command'', PyInt command_id),
                                       (''data'', PyInt layer_mask)]), kb2)))
              else if command_id = PC_Activity_Ping then
                (let command_info = PyDict [(''command'', PyInt command_id), (''data'', PyNone)]
                 in (case call_callback E kb1 command_id PyNone of
                       (Some e, kb2) \<Rightarrow> (Inl e, kb2)
                     | (None, kb2) \<Rightarrow> (Inr command_info, kb2)))
              else (Inl UnknownCommand, kb1))"

subsection \<open>LED fragmentation\<close>

text \<open>
  The \<open>for i, hsv_data in enumerate(led_values)\<close> loop of \<open>set_RGB_LEDs\<close>, started at
  index \<open>i\<close> with the LEDs from \<open>i\<close> on. It either runs to the end of the list
  (\<open>None\<close>) or reaches the branch \<open>i >= leds_per_command\<close>, which it leaves with
  \<open>i\<close> and \<open>led_values[i:]\<close>; beside that, the \<open>command_data\<close> built so far.
\<close>

fun led_loop ::
  "int \<Rightarrow> int \<Rightarrow> int \<Rightarrow> int list \<Rightarrow> HSV list \<Rightarrow> int list \<times> (int \<times> HSV list) option" where
  "led_loop leds_per_command first_led i command_data [] = (command_data, None)"
| "led_loop leds_per_command first_led i command_data (hsv_data # rest) =
     (if i \<ge> leds_per_command then (command_data, Some (i, hsv_data # rest))
      else led_loop leds_per_command first_led (i + 1)
             (command_data @ [first_led + i, Hue hsv_data, Sat hsv_data, Val hsv_data]) rest)"

text \<open>
  \<open>set_RGB_LEDs\<close> calls itself on the rest of the list. The first argument is the
  number of stack frames Python still allows; with none left the call raises
  RecursionError. \<open>math.floor((packet_size - 3) / 4)\<close> is the floored quotient, which
  \<open>div\<close> on \<open>int\<close> is.
\<close>

fun set_RGB_LEDs ::
  "nat \<Rightarrow> 'd env \<Rightarrow> 'd QMKKeyboard \<Rightarrow> HSV list \<Rightarrow> int \<Rightarrow> (error + unit) \<times> 'd QMKKeyboard" where
  "set_RGB_LEDs 0 E kb led_values first_led = (Inl RecursionError, kb)"
| "set_RGB_LEDs (Suc depth) E kb led_values first_led =
     (let leds_per_command = (packet_size kb - 3) div 4
      in case led_loop leds_per_command first_led 0 [] led_values of
           (command_data, Some (i, rest)) \<Rightarrow>
             (case send_command E kb KB_Set_RGB_LEDs (Some command_data) of
                (Inl e, kb') \<Rightarrow> (Inl e, kb')
              | (Inr _, kb') \<Rightarrow> set_RGB_LEDs depth E kb' rest (first_led + i))
         | (command_data, None) \<Rightarrow>
             (case send_command E kb KB_Set_RGB_LEDs (Some command_data) of
                (Inl e, kb') \<Rightarrow> (Inl e, kb')
              | (Inr _, kb') \<Rightarrow> (Inr (), kb')))"

subsection \<open>The polling loop\<close>

text \<open>
  \<open>poll_for_new_commands\<close> (the same text in QMK\_Interface.py and QMKGear.py) and
  \<open>poll_for_new_commands_fast\<close>. \<open>poll_keyboards\<close> is the loop over the keyboards: it
  answers \<open>True\<close> when it reached the \<open>return\<close> under
  \<open>if command_info == Commands.PC_Switch_Fronter\<close>. The natural number threaded
  through \<open>poll_rounds\<close> is the time spent in \<open>time.sleep\<close>, in milliseconds.
\<close>

datatype poll_exit = ReturnedEarly | CompletedCycle

fun poll_keyboards ::
  "'d env \<Rightarrow> 'd QMKKeyboard list \<Rightarrow> (error + bool) \<times> 'd QMKKeyboard list" where
  "poll_keyboards E [] = (Inr False, [])"
| "poll_keyboards E (keyboard # rest) =
     (case parse_commands E keyboard of
        (Inl e, keyboard') \<Rightarrow> (Inl e, keyboard' # rest)
      | (Inr command_info, keyboard') \<Rightarrow>
          if py_eq_int command_info PC_Switch_Fronter then (Inr True, keyboard' # rest)
          else (case poll_keyboards E rest of (r, rest') \<Rightarrow> (r, keyboard' # rest')))"

fun poll_rounds ::
  "nat \<Rightarrow> 'd env \<Rightarrow> 'd QMKKeyboard list \<Rightarrow> nat \<Rightarrow> (error + poll_exit) \<times> 'd QMKKeyboard list \<times> nat" where
  "poll_rounds 0 E keyboards slept = (Inr CompletedCycle, keyboards, slept)"
| "poll_rounds (Suc n) E keyboards slept =
     (case poll_keyboards E keyboards of
        (Inl e, keyboards') \<Rightarrow> (Inl e, keyboards', slept)
      | (Inr True, keyboards') \<Rightarrow> (Inr ReturnedEarly, keyboards', slept + 500)
      | (Inr False, keyboards') \<Rightarrow> poll_rounds n E keyboards' (slept + 500))"

definition poll_for_new_commands ::
  "'d env \<Rightarrow> 'd QMKKeyboard list \<Rightarrow> nat \<Rightarrow> (error + poll_exit) \<times> 'd QMKKeyboard list \<times> nat" where
  "poll_for_new_commands E keyboards slept = poll_rounds 20 E keyboards slept"

definition poll_for_new_commands_fast ::
  "'d env \<Rightarrow> 'd QMKKeyboard list \<Rightarrow> (error + poll_exit) \<times> 'd QMKKeyboard list" where
  "poll_for_new_commands_fast E keyboards =
     (case poll_keyboards E keyboards of
        (Inl e, keyboards') \<Rightarrow> (Inl e, keyboards')
      | (Inr True, keyboards') \<Rightarrow> (Inr ReturnedEarly, keyboards')
      | (Inr False, keyboards') \<Rightarrow> (Inr CompletedCycle, keyboards'))"

subsection \<open>Fragmentation as the specification describes it\<close>

text \<open>
  The bytes of consecutive LEDs as \<open>set_RGB_LEDs\<close> lays them out: four per LED, its
  index, hue, saturation and value.
\<close>

fun led_tuples :: "int \<Rightarrow> HSV list \<Rightarrow> int list" where
  "led_tuples index [] = []"
| "led_tuples index (hsv # rest) =
     [index, Hue hsv, Sat hsv, Val hsv] @ led_tuples (index + 1) rest"

text \<open>
  The specification's \<open>fragment(led_colors, starting_index, capacity)\<close>: with
  \<open>leds_per_packet = floor(capacity / 4)\<close>, a sequence of fragments
  \<open>(start_index, subsequence)\<close> of at most \<open>leds_per_packet\<close> LEDs each, in order.
  This definition follows the specification, not the code; the code is compared with
  it below.
\<close>

function led_chunks :: "nat \<Rightarrow> int \<Rightarrow> HSV list \<Rightarrow> (int \<times> HSV list) list" where
  "led_chunks leds_per_packet start led_colors =
     (if leds_per_packet = 0 \<or> length led_colors \<le> leds_per_packet
      then [(start, led_colors)]
      else (start, take leds_per_packet led_colors)
           # led_chunks leds_per_packet (start + int leds_per_packet)
               (drop leds_per_packet led_colors))"
  by pat_completeness auto
termination
  by (relation "measure (\<lambda>(n, s, xs). length xs)") auto

declare led_chunks.simps [simp del]

definition spec_fragment :: "HSV list \<Rightarrow> int \<Rightarrow> nat \<Rightarrow> (int \<times> HSV list) list" where
  "spec_fragment led_colors starting_index capacity =
     led_chunks (capacity div 4) starting_index led_colors"

text \<open>
  The call on the handle that carries one fragment as a KB\_Set\_RGB\_LEDs command, and
  the range of a byte.
\<close>

definition fragment_call :: "int \<times> HSV list \<Rightarrow> hid_call" where
  "fragment_call f =
     HidWrite (map word_of_int
       (construct_command_packet KB_Set_RGB_LEDs (led_tuples (fst f) (snd f))))"

definition byte_ok :: "int \<Rightarrow> bool" where
  "byte_ok x = (0 \<le> x \<and> x < 256)"

section \<open>Example environments\<close>

text \<open>
  Concrete surroundings for evaluating the functions above. The state of the device is
  the list of buffers it will still hand to \<open>read\<close> (then empty reads). In
  \<open>ready_env\<close> every write is accepted and no handler raises; in \<open>unplugged_env\<close>
  every call on the handle raises \<open>hid.HIDException\<close>.
\<close>

definition ready_env :: "byte list list env" where
  "ready_env =
     \<lparr>hid_write = (\<lambda>d bs. (Some (int (length bs)), d)),
      hid_read = (\<lambda>d len timeout. case d of [] \<Rightarrow> (Some [], []) | b # r \<Rightarrow> (Some b, r)),
      run_callback = (\<lambda>c a kb. (None, kb))\<rparr>"

definition unplugged_env :: "byte list list env" where
  "unplugged_env =
     \<lparr>hid_write = (\<lambda>d bs. (None, d)),
      hid_read = (\<lambda>d len timeout. (None, d)),
      run_callback = (\<lambda>c a kb. (None, kb))\<rparr>"

text \<open>A lily58 as \<open>open\<close> leaves it (handle present, connected), with no callbacks.\<close>

definition opened_lily58 :: "byte list list \<Rightarrow> byte list list QMKKeyboard" where
  "opened_lily58 inbox =
     \<lparr>keyboard_type = LILY58, packet_size = 32, qmk = Some inbox, connected = True,
      callbacks = {}, calls = [], invoked = []\<rparr>"

text \<open>The twelve colours \<open>test_LED_set_functionality\<close> builds for the lily58.\<close>

definition hsv_set_info :: "HSV list" where
  "hsv_set_info = map (\<lambda>i. \<lparr>Hue = 2 * int i, Sat = 255, Val = 255\<rparr>) [0..<12]"

section \<open>Properties\<close>

lemmas Commands_defs =
  Do_Nothing_def KB_Set_Fronter_def KB_Set_All_RGB_LEDs_def KB_Set_RGB_LEDs_def
  KB_Activity_Ping_def PC_Raw_Debug_Msg_def PC_Debug_Msg_def PC_Switch_Fronter_def
  PC_Notify_Layer_Change_def PC_Activity_Ping_def

subsection \<open>Auxiliary facts\<close>

text \<open>The example keyboard is the object \<open>__init__\<close> builds, after \<open>open\<close>.\<close>

lemma opened_lily58_init:
  "(QMKKeyboard_init LILY58 {} :: error + byte list list QMKKeyboard)
     = Inr ((opened_lily58 inbox)\<lparr>qmk := None, connected := False\<rparr>)"
  by (simp add: QMKKeyboard_init_def opened_lily58_def)

lemma read_returns:
  "qmk kb = Some d \<Longrightarrow> hid_read E d len timeout = (Some buf, d') \<Longrightarrow>
     read E kb timeout len =
       (Inr (map uint buf), kb\<lparr>qmk := Some d', calls := calls kb @ [HidRead len timeout]\<rparr>)"
  by (simp add: read_def)

lemma call_callback_returns:
  assumes "c \<in> callbacks kb \<longrightarrow> (\<forall>a k. fst (run_callback E c a k) = None)"
  shows "\<exists>kb2. call_callback E kb c a = (None, kb2)"
proof (cases "c \<in> callbacks kb")
  case True
  with assms have "fst (run_callback E c a (kb\<lparr>invoked := invoked kb @ [(c, a)]\<rparr>)) = None"
    by simp
  with True show ?thesis
    by (cases "run_callback E c a (kb\<lparr>invoked := invoked kb @ [(c, a)]\<rparr>)")
       (simp add: call_callback_def)
next
  case False
  then show ?thesis by (simp add: call_callback_def)
qed

lemma three_bytes:
  assumes "3 \<le> length (buf :: 'a list)"
  obtains rest where "buf = buf ! 0 # buf ! 1 # buf ! 2 # rest"
proof -
  from assms obtain b0 b1 b2 rest where "buf = b0 # b1 # b2 # rest"
    by (cases buf; cases "tl buf"; cases "tl (tl buf)") auto
  then have "buf = buf ! 0 # buf ! 1 # buf ! 2 # rest" by simp
  then show thesis by (rule that)
qed

lemma bytearray_uint: "bytearray xs = Some bs \<Longrightarrow> map uint bs = xs"
proof (induction xs arbitrary: bs)
  case Nil
  then show ?case by simp
next
  case (Cons x xs)
  from Cons.prems have x: "0 \<le> x" "x < 256"
    by (simp_all split: if_splits)
  with Cons.prems obtain bs' where bs': "bytearray xs = Some bs'" "bs = word_of_int x # bs'"
    by (auto split: option.splits)
  have "uint (word_of_int x :: byte) = x"
    using x by (simp add: uint_word_of_int take_bit_int_eq_self)
  with bs' Cons.IH show ?case by simp
qed

lemma bytearray_Some_iff:
  "(\<exists>bs. bytearray xs = Some bs) = (\<forall>x \<in> set xs. 0 \<le> x \<and> x < 256)"
  by (induction xs) (auto split: option.splits)

lemma int_from_bytes_little_inj:
  "length q = length p \<Longrightarrow> \<forall>x \<in> set p. 0 \<le> x \<and> x < 256 \<Longrightarrow>
   \<forall>x \<in> set q. 0 \<le> x \<and> x < 256 \<Longrightarrow>
   int_from_bytes_little q = int_from_bytes_little p \<Longrightarrow> q = p"
proof (induction q p rule: list_induct2)
  case Nil
  then show ?case by simp
next
  case (Cons y ys x xs)
  from Cons.prems have eq: "y + 256 * int_from_bytes_little ys = x + 256 * int_from_bytes_little xs"
    and x: "0 \<le> x" "x < 256" and y: "0 \<le> y" "y < 256"
    by simp_all
  have "y = (y + 256 * int_from_bytes_little ys) mod 256"
    using y by simp
  also have "\<dots> = (x + 256 * int_from_bytes_little xs) mod 256"
    by (simp only: eq)
  also have "\<dots> = x"
    using x by simp
  finally have yx: "y = x" .
  with eq have "int_from_bytes_little ys = int_from_bytes_little xs"
    by simp
  with Cons yx show ?case by simp
qed

text \<open>The value of \<open>int_from_bytes_little\<close>, written out: byte \<open>i\<close> weighs \<open>256 ^ i\<close>.\<close>

lemma int_from_bytes_little_sum:
  "int_from_bytes_little xs = (\<Sum>i < length xs. xs ! i * 256 ^ i)"
proof (induction xs)
  case Nil
  then show ?case by simp
next
  case (Cons x xs)
  have "(\<Sum>i < length (x # xs). (x # xs) ! i * 256 ^ i)
      = x + (\<Sum>i < length xs. xs ! i * 256 ^ Suc i)"
    by (simp add: sum.lessThan_Suc_shift del: sum.lessThan_Suc)
  also have "\<dots> = x + 256 * (\<Sum>i < length xs. xs ! i * 256 ^ i)"
    by (simp add: sum_distrib_left mult.assoc mult.left_commute)
  finally show ?case using Cons.IH by simp
qed

subsection \<open>Sending\<close>

text \<open>
  C9. \<open>send_command\<close> with \<open>None\<close> for the payload sends what it sends for the
  payload \<open>[0]\<close>: the packet \<open>[0, command, 1, 0]\<close>, whose length byte is 1 and whose
  only data byte is 0. So the activity ping (command 4) of \<open>send_activity_ping\<close>
  reaches the transport as the four bytes 0, 4, 1, 0, never with a length byte of 0.
\<close>

theorem send_command_None_payload:
  "send_command E kb c None = send_command E kb c (Some [0])
   \<and> send_command E kb c None = write_kb E kb (construct_command_packet c [0])
   \<and> construct_command_packet c [0] = [0, c, 1, 0]
   \<and> (qmk kb = Some d \<and> 4 \<le> packet_size kb \<and> 0 \<le> c \<and> c < 256 \<longrightarrow>
        calls (snd (send_command E kb c None))
          = calls kb @ [HidWrite [0, word_of_int c, 1, 0]])
   \<and> (qmk kb = Some d \<and> 4 \<le> packet_size kb \<longrightarrow>
        calls (snd (send_activity_ping E kb)) = calls kb @ [HidWrite [0, 4, 1, 0]])"
  by (auto simp: send_command_def send_activity_ping_def construct_command_packet_def
      write_kb_def KB_Activity_Ping_def split: option.splits prod.splits sum.splits)

theorem send_command_None_payload_witness:
  "send_command ready_env (opened_lily58 []) 4 None
     = send_command ready_env (opened_lily58 []) 4 (Some [0])
   \<and> calls (snd (send_activity_ping ready_env (opened_lily58 []))) = [HidWrite [0, 4, 1, 0]]"
  using send_command_None_payload [of ready_env "opened_lily58 []" 4 "[]"]
  by (simp add: opened_lily58_def)

text \<open>
  C4. \<open>send_command\<close> raises DataPacketTooLarge exactly when 3 plus the length of
  the payload exceeds \<open>packet_size\<close>, and then the keyboard object is left as it was:
  nothing has been handed to the transport, and nothing is cut to fit.
\<close>

theorem send_command_size_guard:
  "(fst (send_command E kb c (Some payload)) = Inl DataPacketTooLarge)
     = (3 + int (length payload) > packet_size kb)
   \<and> (3 + int (length payload) > packet_size kb
        \<longrightarrow> send_command E kb c (Some payload) = (Inl DataPacketTooLarge, kb))"
  by (auto simp: send_command_def construct_command_packet_def write_kb_def
      split: option.splits prod.splits)

theorem send_command_size_guard_witness:
  "send_command ready_env (opened_lily58 []) 3 (Some (replicate 30 7))
     = (Inl DataPacketTooLarge, opened_lily58 [])
  \<and> fst (send_command ready_env (opened_lily58 []) 3 (Some (replicate 29 7))) \<noteq> Inl DataPacketTooLarge"
  using send_command_size_guard [of ready_env "opened_lily58 []" 3 "replicate 30 7"]
   send_command_size_guard [of ready_env "opened_lily58 []" 3 "replicate 29 7"]
  by (simp add: opened_lily58_def)

text \<open>
  C3, as the code has it. The guard of \<open>write\<close> is the handle, not the \<open>connected\<close>
  flag: with no handle (\<open>qmk\<close> is \<open>None\<close>) a packet that passes the size check fails
  with KeyboardDisconnected, the flag is set to false and no call reaches the
  transport.
\<close>

theorem write_without_handle:
  "qmk kb = None \<Longrightarrow> int (length data) \<le> packet_size kb \<Longrightarrow>
     write_kb E kb data = (Inl KeyboardDisconnected, kb\<lparr>connected := False\<rparr>)
     \<and> calls (snd (write_kb E kb data)) = calls kb"
  by (simp add: write_kb_def)

theorem write_without_handle_witness:
  "write_kb ready_env ((opened_lily58 [])\<lparr>qmk := None\<rparr>) [0, 4, 1, 0]
     = (Inl KeyboardDisconnected, (opened_lily58 [])\<lparr>qmk := None, connected := False\<rparr>)
   \<and> calls (snd (write_kb ready_env ((opened_lily58 [])\<lparr>qmk := None\<rparr>) [0, 4, 1, 0])) = []"
  using write_without_handle [of "(opened_lily58 [])\<lparr>qmk := None\<rparr>" "[0, 4, 1, 0]" ready_env]
  by (simp add: opened_lily58_def)

text \<open>
  C3 as stated fails: a keyboard whose \<open>connected\<close> flag is false but whose handle is
  still there (the state a failed send or receive leaves) hands the packet to the
  transport, and the write succeeds when the transport accepts it.
\<close>

theorem write_disconnected_counterexample:
  "\<not> connected ((opened_lily58 [])\<lparr>connected := False\<rparr>)
   \<and> write_kb ready_env ((opened_lily58 [])\<lparr>connected := False\<rparr>) [0, 4, 1, 0]
       = (Inr 4, (opened_lily58 [])\<lparr>connected := False, calls := [HidWrite [0, 4, 1, 0]]\<rparr>)"
  by (simp add: write_kb_def opened_lily58_def ready_env_def)

text \<open>
  C8. A failure of the transport (\<open>hid.HIDException\<close>) inside \<open>write\<close> or \<open>read\<close>
  comes out as KeyboardDisconnected, and the keyboard object that is left differs
  from the one before by the one call on the handle and by \<open>connected\<close>, now false.
\<close>

theorem transport_failure_disconnects:
  "qmk kb = Some d \<Longrightarrow>
   (int (length data) \<le> packet_size kb \<and> bytearray data = Some bs
      \<and> hid_write E d bs = (None, d')
      \<longrightarrow> write_kb E kb data =
            (Inl KeyboardDisconnected,
             kb\<lparr>qmk := Some d', calls := calls kb @ [HidWrite bs], connected := False\<rparr>))
   \<and> (hid_read E d len timeout = (None, d')
      \<longrightarrow> read E kb timeout len =
            (Inl KeyboardDisconnected,
             kb\<lparr>qmk := Some d', calls := calls kb @ [HidRead len timeout],
                connected := False\<rparr>))"
  by (simp add: write_kb_def read_def)

theorem transport_failure_disconnects_witness:
  "connected (opened_lily58 [])
   \<and> write_kb unplugged_env (opened_lily58 []) [0, 4, 1, 0] =
       (Inl KeyboardDisconnected,
        (opened_lily58 [])\<lparr>calls := [HidWrite [0, 4, 1, 0]], connected := False\<rparr>)
   \<and> read unplugged_env (opened_lily58 []) 100 32 =
       (Inl KeyboardDisconnected,
        (opened_lily58 [])\<lparr>calls := [HidRead 32 100], connected := False\<rparr>)"
  using transport_failure_disconnects
    [of "opened_lily58 []" "[]" "[0, 4, 1, 0]" "[0, 4, 1, 0]" unplugged_env "[]" 32 100]
  by (simp add: opened_lily58_def unplugged_env_def)

subsection \<open>Decoding\<close>

text \<open>
  C7. When the read returns an empty buffer, \<open>parse_commands\<close> returns \<open>None\<close> and
  raises nothing; when it returns one or two bytes, \<open>parse_commands\<close> raises
  CorruptResponse. In both cases the \<open>connected\<close> flag is what it was.
\<close>

theorem parse_length_guards:
  "qmk kb = Some d \<Longrightarrow> hid_read E d 32 100 = (Some buf, d') \<Longrightarrow>
     (length buf = 0 \<longrightarrow> fst (parse_commands E kb) = Inr PyNone)
   \<and> (0 < length buf \<and> length buf < 3 \<longrightarrow> fst (parse_commands E kb) = Inl CorruptResponse)
   \<and> (length buf < 3 \<longrightarrow> connected (snd (parse_commands E kb)) = connected kb)"
  by (simp add: parse_commands_def read_def)

theorem parse_length_guards_witness:
  "fst (parse_commands ready_env (opened_lily58 [[123, 1]])) = Inl CorruptResponse
   \<and> connected (snd (parse_commands ready_env (opened_lily58 [[123, 1]])))
   \<and> fst (parse_commands ready_env (opened_lily58 [])) = Inr PyNone
   \<and> connected (snd (parse_commands ready_env (opened_lily58 [])))"
  using parse_length_guards [of "opened_lily58 [[123, 1]]" "[[123, 1]]" ready_env "[123, 1]" "[]"]
    parse_length_guards [of "opened_lily58 []" "[]" ready_env "[]" "[]"]
  by (simp add: opened_lily58_def ready_env_def)

text \<open>
  C6. A packet with command byte 123 and length byte \<open>n\<close> between 1 and 4 decodes
  to the event with command 123 whose data is the unsigned little-endian integer of
  the first \<open>n\<close> bytes after the two header bytes: byte \<open>i\<close> of them counts
  \<open>256 ^ i\<close> times its value, and what follows them is ignored. No width is fixed:
  the bytes 0xFF with length 1 give 255; 0x01, 0x02 with length 2 give 0x0201;
  1, 2, 3 with length 3 give 0x030201; 1, 2, 3, 4 with length 4 give 0x04030201.
  (A registered handler is taken to return without raising.)
\<close>

theorem layer_change_decoding:
  assumes "qmk kb = Some d" and "hid_read E d 32 100 = (Some buf, d')"
    and "3 \<le> length buf" and "buf ! 0 = 123" and "unat (buf ! 1) = n"
    and "1 \<le> n" and "n \<le> 4"
    and "123 \<in> callbacks kb \<longrightarrow> (\<forall>a k. fst (run_callback E 123 a k) = None)"
  shows "fst (parse_commands E kb) =
     Inr (PyDict [(''command'', PyInt 123),
                  (''data'', PyInt (\<Sum>i < min n (length buf - 2).
                                      uint (buf ! (2 + i)) * 256 ^ i))])"
proof -
  let ?kb1 = "kb\<lparr>qmk := Some d', calls := calls kb @ [HidRead 32 100]\<rparr>"
  let ?payload = "map uint (take n (drop 2 buf))"
  let ?mask = "int_from_bytes_little ?payload"
  obtain rest where buf: "buf = 123 # buf ! 1 # buf ! 2 # rest"
    using three_bytes [OF assms(3)] assms(4) by metis
  have rd: "read E kb 100 32 = (Inr (map uint (123 # buf ! 1 # buf ! 2 # rest)), ?kb1)"
    using read_returns [OF assms(1,2)] buf by simp
  have "123 \<in> callbacks ?kb1 \<longrightarrow> (\<forall>a k. fst (run_callback E 123 a k) = None)"
    using assms(8) by simp
  then obtain kb2 where cb: "call_callback E ?kb1 123 (PyInt ?mask) = (None, kb2)"
    using call_callback_returns by blast
  have mask: "?mask = int_from_bytes_little (take n (uint (buf ! 2) # map uint rest))"
    by (subst buf) (simp flip: take_map)
  have len: "length ?payload = min n (length buf - 2)"
    by (simp add: min.commute)
  have "?mask = (\<Sum>i < length ?payload. ?payload ! i * 256 ^ i)"
    by (rule int_from_bytes_little_sum)
  also have "\<dots> = (\<Sum>i < min n (length buf - 2). uint (buf ! (2 + i)) * 256 ^ i)"
    unfolding len
  proof (rule sum.cong)
    fix i
    assume "i \<in> {..<min n (length buf - 2)}"
    then have i: "i < n" "i < length buf - 2" by simp_all
    have "2 \<le> length buf" using assms(3) by simp
    then have "drop 2 buf ! i = buf ! (2 + i)" by (rule nth_drop)
    with i show "?payload ! i * 256 ^ i = uint (buf ! (2 + i)) * 256 ^ i"
      by simp
  qed simp
  finally have val: "?mask = (\<Sum>i < min n (length buf - 2). uint (buf ! (2 + i)) * 256 ^ i)" .
  have "fst (parse_commands E kb) =
     Inr (PyDict [(''command'', PyInt 123), (''data'', PyInt ?mask)])"
    using cb assms(5)
    by (simp add: parse_commands_def rd Commands_defs mask)
  then show ?thesis by (simp only: val)
qed

theorem layer_change_decoding_witness:
  "fst (parse_commands ready_env (opened_lily58 [[123, 2, 0x01, 0x02]])) =
     Inr (PyDict [(''command'', PyInt 123), (''data'', PyInt 0x0201)])
   \<and> fst (parse_commands ready_env (opened_lily58 [[123, 1, 0xFF]])) =
     Inr (PyDict [(''command'', PyInt 123), (''data'', PyInt 255)])
   \<and> fst (parse_commands ready_env (opened_lily58 [[123, 3, 1, 2, 3]])) =
     Inr (PyDict [(''command'', PyInt 123), (''data'', PyInt 0x030201)])
   \<and> fst (parse_commands ready_env (opened_lily58 [[123, 4, 1, 2, 3, 4]])) =
     Inr (PyDict [(''command'', PyInt 123), (''data'', PyInt 0x04030201)])
   \<and> fst (parse_commands ready_env (opened_lily58 [[123, 2, 1, 2, 9, 9, 9]])) =
     Inr (PyDict [(''command'', PyInt 123), (''data'', PyInt 0x0201)])"
  using layer_change_decoding [of "opened_lily58 [[123, 2, 0x01, 0x02]]" "[[123, 2, 0x01, 0x02]]" ready_env "[123, 2, 0x01, 0x02]" "[]" 2]
   layer_change_decoding [of "opened_lily58 [[123, 1, 0xFF]]" "[[123, 1, 0xFF]]" ready_env "[123, 1, 0xFF]" "[]" 1]
   layer_change_decoding [of "opened_lily58 [[123, 3, 1, 2, 3]]" "[[123, 3, 1, 2, 3]]" ready_env "[123, 3, 1, 2, 3]" "[]" 3]
   layer_change_decoding [of "opened_lily58 [[123, 4, 1, 2, 3, 4]]" "[[123, 4, 1, 2, 3, 4]]" ready_env "[123, 4, 1, 2, 3, 4]" "[]" 4]
   layer_change_decoding [of "opened_lily58 [[123, 2, 1, 2, 9, 9, 9]]" "[[123, 2, 1, 2, 9, 9, 9]]" ready_env "[123, 2, 1, 2, 9, 9, 9]" "[]" 2]
  by (simp add: opened_lily58_def ready_env_def)

text \<open>
  C10. A packet with command byte 122 carries the member id in its third byte. An id
  outside 0..3 makes \<open>parse_commands\<close> raise ValueError, from the
  \<open>SystemMembers\<close> lookup of the log line, and no callback has been invoked by then;
  an id in 0..3 decodes to the event with command 122 and that id (a registered
  handler being taken to return without raising).
\<close>

theorem switch_fronter_member_range:
  assumes "qmk kb = Some d" and "hid_read E d 32 100 = (Some buf, d')"
    and "3 \<le> length buf" and "buf ! 0 = 122"
  shows "(uint (buf ! 2) \<notin> {0, 1, 2, 3} \<longrightarrow>
            fst (parse_commands E kb) = Inl ValueError
          \<and> invoked (snd (parse_commands E kb)) = invoked kb)
       \<and> (uint (buf ! 2) \<in> {0, 1, 2, 3}
            \<and> (122 \<in> callbacks kb \<longrightarrow> (\<forall>a k. fst (run_callback E 122 a k) = None)) \<longrightarrow>
            fst (parse_commands E kb) =
              Inr (PyDict [(''command'', PyInt 122), (''data'', PyInt (uint (buf ! 2)))]))"
proof -
  let ?kb1 = "kb\<lparr>qmk := Some d', calls := calls kb @ [HidRead 32 100]\<rparr>"
  let ?m = "uint (buf ! 2)"
  obtain rest where buf: "buf = 122 # buf ! 1 # buf ! 2 # rest"
    using three_bytes [OF assms(3)] assms(4) by metis
  have rd: "read E kb 100 32 = (Inr (map uint (122 # buf ! 1 # buf ! 2 # rest)), ?kb1)"
    using read_returns [OF assms(1,2)] buf by simp
  have bad: "fst (parse_commands E kb) = Inl ValueError
       \<and> invoked (snd (parse_commands E kb)) = invoked kb"
    if "?m \<notin> {0, 1, 2, 3}"
    using that
    by (simp add: parse_commands_def rd Commands_defs SystemMembers_lookup_def)
  have good: "fst (parse_commands E kb) =
       Inr (PyDict [(''command'', PyInt 122), (''data'', PyInt ?m)])"
    if m: "?m \<in> {0, 1, 2, 3}"
      and q: "122 \<in> callbacks kb \<longrightarrow> (\<forall>a k. fst (run_callback E 122 a k) = None)"
  proof -
    from q have "122 \<in> callbacks ?kb1 \<longrightarrow> (\<forall>a k. fst (run_callback E 122 a k) = None)"
      by simp
    then obtain kb2 where cb: "call_callback E ?kb1 122 (PyInt ?m) = (None, kb2)"
      using call_callback_returns by blast
    from m have "\<exists>w. SystemMembers_lookup ?m = Inr w"
      by (auto simp: SystemMembers_lookup_def)
    then obtain w where "SystemMembers_lookup ?m = Inr w" ..
    then show ?thesis
      using cb
      by (simp add: parse_commands_def rd Commands_defs)
  qed
  show ?thesis using bad good by blast
qed

theorem switch_fronter_member_range_witness:
  "fst (parse_commands ready_env (opened_lily58 [[122, 1, 4]])) = Inl ValueError
   \<and> invoked (snd (parse_commands ready_env (opened_lily58 [[122, 1, 4]]))) = []
   \<and> fst (parse_commands ready_env (opened_lily58 [[122, 1, 3]])) =
       Inr (PyDict [(''command'', PyInt 122), (''data'', PyInt 3)])"
  using switch_fronter_member_range [of "opened_lily58 [[122, 1, 4]]" "[[122, 1, 4]]" ready_env "[122, 1, 4]" "[]"]
    switch_fronter_member_range [of "opened_lily58 [[122, 1, 3]]" "[[122, 1, 3]]" ready_env "[122, 1, 3]" "[]"]
  by (simp add: opened_lily58_def ready_env_def)

subsection \<open>LED fragmentation\<close>

lemma length_led_tuples: "length (led_tuples s c) = 4 * length c"
  by (induction c arbitrary: s) simp_all

lemma led_loop_split:
  "0 \<le> i \<Longrightarrow> i \<le> lpc \<Longrightarrow>
   led_loop lpc first i cd xs =
     (if int (length xs) \<le> lpc - i then (cd @ led_tuples (first + i) xs, None)
      else (cd @ led_tuples (first + i) (take (nat (lpc - i)) xs),
            Some (lpc, drop (nat (lpc - i)) xs)))"
proof (induction xs arbitrary: i cd)
  case Nil
  then show ?case by simp
next
  case (Cons x xs)
  show ?case
  proof (cases "i = lpc")
    case True
    then show ?thesis by simp
  next
    case False
    with Cons.prems have lt: "i < lpc" by simp
    then have n: "nat (lpc - i) = Suc (nat (lpc - (i + 1)))" by simp
    have "0 \<le> i + 1" "i + 1 \<le> lpc" using Cons.prems lt by simp_all
    from Cons.IH [OF this] lt show ?thesis
      by (simp add: n add.assoc del: led_loop.simps(2)) (simp add: add.assoc)
  qed
qed

lemma bytearray_valid:
  "\<forall>x \<in> set xs. byte_ok x \<Longrightarrow> bytearray xs = Some (map word_of_int xs)"
  by (induction xs) (simp_all add: byte_ok_def)

lemma led_tuples_valid:
  "0 \<le> s \<Longrightarrow> s + int (length c) \<le> 256 \<Longrightarrow>
   \<forall>h \<in> set c. byte_ok (Hue h) \<and> byte_ok (Sat h) \<and> byte_ok (Val h) \<Longrightarrow>
   \<forall>x \<in> set (led_tuples s c). byte_ok x"
proof (induction c arbitrary: s)
  case Nil
  then show ?case by simp
next
  case (Cons h c)
  have "\<forall>x \<in> set (led_tuples (s + 1) c). byte_ok x"
    using Cons.prems by (intro Cons.IH) simp_all
  moreover have "byte_ok s" using Cons.prems by (simp add: byte_ok_def)
  ultimately show ?case using Cons.prems by simp
qed

lemma send_command_accepted:
  assumes "qmk kb = Some d"
    and "3 + int (length cd) \<le> packet_size kb"
    and "byte_ok c" and "length cd < 256" and "\<forall>x \<in> set cd. byte_ok x"
    and "\<forall>d bs. fst (hid_write E d bs) \<noteq> None"
  shows "\<exists>n d'. send_command E kb c (Some cd) =
           (Inr n, kb\<lparr>qmk := Some d',
                       calls := calls kb @
                         [HidWrite (map word_of_int (construct_command_packet c cd))]\<rparr>)"
proof -
  let ?pkt = "construct_command_packet c cd"
  have "\<forall>x \<in> set ?pkt. byte_ok x"
    using assms(3,4,5) by (simp add: construct_command_packet_def byte_ok_def)
  then have b: "bytearray ?pkt = Some (map word_of_int ?pkt)"
    by (rule bytearray_valid)
  have len: "\<not> int (length ?pkt) > packet_size kb"
    using assms(2) by (simp add: construct_command_packet_def)
  obtain r d' where w: "hid_write E d (map word_of_int ?pkt) = (r, d')"
    by (cases "hid_write E d (map word_of_int ?pkt)")
  with assms(6) have "r \<noteq> None" by (metis fst_conv)
  then obtain n where "r = Some n" by blast
  with w len b assms(1) show ?thesis
    by (auto simp add: send_command_def write_kb_def)
qed

lemma led_chunks_nonempty: "led_chunks n s xs \<noteq> []"
  by (subst led_chunks.simps) simp

lemma concat_led_chunks: "concat (map snd (led_chunks n s xs)) = xs"
proof (induction n s xs rule: led_chunks.induct)
  case (1 n s xs)
  show ?case
  proof (cases "n = 0 \<or> length xs \<le> n")
    case True
    then show ?thesis by (subst led_chunks.simps) simp
  next
    case False
    with "1.IH" show ?thesis by (subst led_chunks.simps) simp
  qed
qed

lemma led_chunks_bounded:
  "0 < n \<Longrightarrow> f \<in> set (led_chunks n s xs) \<Longrightarrow> length (snd f) \<le> n"
proof (induction n s xs rule: led_chunks.induct)
  case (1 n s xs)
  show ?case
  proof (cases "length xs \<le> n")
    case True
    with "1.prems" show ?thesis by (simp add: led_chunks.simps [of n s xs])
  next
    case False
    with "1.prems" "1.IH" show ?thesis
      by (auto simp add: led_chunks.simps [of n s xs])
  qed
qed

lemma led_chunks_start:
  "k < length (led_chunks n s xs) \<Longrightarrow>
   fst (led_chunks n s xs ! k) =
     s + int (length (concat (map snd (take k (led_chunks n s xs)))))"
proof (induction n s xs arbitrary: k rule: led_chunks.induct)
  case (1 n s xs)
  show ?case
  proof (cases "n = 0 \<or> length xs \<le> n")
    case True
    with "1.prems" show ?thesis by (simp add: led_chunks.simps [of n s xs])
  next
    case False
    let ?rest = "led_chunks n (s + int n) (drop n xs)"
    have unf: "led_chunks n s xs = (s, take n xs) # ?rest"
      using False by (subst led_chunks.simps) simp
    show ?thesis
    proof (cases k)
      case 0
      then show ?thesis by (simp add: unf)
    next
      case (Suc j)
      with "1.prems" unf have "j < length ?rest" by simp
      from "1.IH" [OF False this] Suc False show ?thesis
        by (simp add: unf)
    qed
  qed
qed

lemma set_RGB_LEDs_calls:
  assumes ok: "\<forall>d bs. fst (hid_write E d bs) \<noteq> None"
  shows "qmk kb = Some d \<Longrightarrow> 7 \<le> packet_size kb \<Longrightarrow> packet_size kb \<le> 258 \<Longrightarrow>
     n = nat ((packet_size kb - 3) div 4) \<Longrightarrow>
     0 \<le> first \<Longrightarrow> first + int (length leds) \<le> 256 \<Longrightarrow>
     \<forall>h \<in> set leds. byte_ok (Hue h) \<and> byte_ok (Sat h) \<and> byte_ok (Val h) \<Longrightarrow>
     length (led_chunks n first leds) \<le> depth \<Longrightarrow>
     \<exists>kb'. set_RGB_LEDs depth E kb leds first = (Inr (), kb')
          \<and> calls kb' = calls kb @ map fragment_call (led_chunks n first leds)"
proof (induction depth arbitrary: kb d first leds)
  case 0
  then show ?case by (simp add: led_chunks_nonempty)
next
  case (Suc depth)
  let ?lpc = "(packet_size kb - 3) div 4"
  have lpc: "1 \<le> ?lpc" "4 * ?lpc \<le> packet_size kb - 3" "4 * ?lpc < 256" "?lpc = int n"
    using Suc.prems(2,3,4) by simp_all
  have npos: "0 < n" using lpc by simp
  have loop: "led_loop ?lpc first 0 [] leds =
     (if length leds \<le> n then (led_tuples first leds, None)
      else (led_tuples first (take n leds), Some (int n, drop n leds)))"
    using led_loop_split [of 0 ?lpc first "[]" leds] lpc by simp
  show ?case
  proof (cases "length leds \<le> n")
    case True
    have chunks: "led_chunks n first leds = [(first, leds)]"
      using True by (subst led_chunks.simps) simp
    have valid: "\<forall>x \<in> set (led_tuples first leds). byte_ok x"
      using Suc.prems(5,6,7) by (rule led_tuples_valid)
    have "3 + int (length (led_tuples first leds)) \<le> packet_size kb"
      "length (led_tuples first leds) < 256"
      using True lpc by (simp_all add: length_led_tuples)
    from send_command_accepted [OF Suc.prems(1) this(1) _ this(2) valid ok, of KB_Set_RGB_LEDs]
    obtain m d' where "send_command E kb KB_Set_RGB_LEDs (Some (led_tuples first leds)) =
        (Inr m, kb\<lparr>qmk := Some d', calls := calls kb @ [fragment_call (first, leds)]\<rparr>)"
      by (auto simp add: byte_ok_def KB_Set_RGB_LEDs_def fragment_call_def)
    then show ?thesis
      using True by (simp add: loop chunks)
  next
    case False
    let ?c = "take n leds" and ?r = "drop n leds"
    have chunks: "led_chunks n first leds = (first, ?c) # led_chunks n (first + int n) ?r"
      using False npos by (subst led_chunks.simps) simp
    have lenc: "length ?c = n" using False by simp
    have valid: "\<forall>x \<in> set (led_tuples first ?c). byte_ok x"
    proof (rule led_tuples_valid)
      show "0 \<le> first" by (rule Suc.prems(5))
      show "first + int (length ?c) \<le> 256" using Suc.prems(6) False by simp
      show "\<forall>h \<in> set ?c. byte_ok (Hue h) \<and> byte_ok (Sat h) \<and> byte_ok (Val h)"
        using Suc.prems(7) by (meson in_set_takeD)
    qed
    have "3 + int (length (led_tuples first ?c)) \<le> packet_size kb"
      "length (led_tuples first ?c) < 256"
      using lenc lpc by (simp_all add: length_led_tuples)
    from send_command_accepted [OF Suc.prems(1) this(1) _ this(2) valid ok, of KB_Set_RGB_LEDs]
    obtain m d' where sent: "send_command E kb KB_Set_RGB_LEDs (Some (led_tuples first ?c)) =
        (Inr m, kb\<lparr>qmk := Some d', calls := calls kb @ [fragment_call (first, ?c)]\<rparr>)"
      by (auto simp add: byte_ok_def KB_Set_RGB_LEDs_def fragment_call_def)
    let ?kb1 = "kb\<lparr>qmk := Some d', calls := calls kb @ [fragment_call (first, ?c)]\<rparr>"
    have "\<exists>kb'. set_RGB_LEDs depth E ?kb1 ?r (first + int n) = (Inr (), kb')
          \<and> calls kb' = calls ?kb1 @ map fragment_call (led_chunks n (first + int n) ?r)"
    proof (rule Suc.IH)
      show "qmk ?kb1 = Some d'" by simp
      show "7 \<le> packet_size ?kb1" "packet_size ?kb1 \<le> 258"
        using Suc.prems(2,3) by simp_all
      show "n = nat ((packet_size ?kb1 - 3) div 4)" using Suc.prems(4) by simp
      show "0 \<le> first + int n" using Suc.prems(5) by simp
      show "first + int n + int (length ?r) \<le> 256" using Suc.prems(6) False by simp
      show "\<forall>h \<in> set ?r. byte_ok (Hue h) \<and> byte_ok (Sat h) \<and> byte_ok (Val h)"
        using Suc.prems(7) by (meson in_set_dropD)
      show "length (led_chunks n (first + int n) ?r) \<le> depth"
        using Suc.prems(8) by (simp add: chunks)
    qed
    then obtain kb' where rest: "set_RGB_LEDs depth E ?kb1 ?r (first + int n) = (Inr (), kb')"
      "calls kb' = calls ?kb1 @ map fragment_call (led_chunks n (first + int n) ?r)"
      by blast
    show ?thesis
      using False sent rest by (simp add: loop chunks)
  qed
qed

text \<open>
  C5, as the code has it. Let the colours be bytes and the LED indices
  \<open>first_led\<close> to \<open>first_led + len - 1\<close> fit a byte, on a keyboard with a handle
  whose transport accepts every write. Then \<open>set_RGB_LEDs\<close> returns normally,
  given the stack depth for one call per fragment, and the writes it makes are, in
  order, the fragments of \<open>spec_fragment\<close> for the capacity \<open>packet_size - 3\<close>, one
  KB\_Set\_RGB\_LEDs packet each. The fragments concatenate to the input list; each has
  at most \<open>floor((packet_size - 3) / 4)\<close> LEDs; fragment \<open>k\<close> starts at the first
  index plus the number of LEDs in the fragments before it; and the payload of a packet
  is the whole four-byte tuples of its fragment, so no tuple is split. For the twelve
  LEDs of the lily58 and 32-byte packets: LEDs 0 to 6 from index 0, then LEDs 7 to 11
  from 7.
\<close>

theorem set_RGB_LEDs_fragments:
  assumes "qmk kb = Some d" and "7 \<le> packet_size kb" and "packet_size kb \<le> 258"
    and "\<forall>d bs. fst (hid_write E d bs) \<noteq> None"
    and "0 \<le> first_led" and "first_led + int (length led_values) \<le> 256"
    and "\<forall>h \<in> set led_values. byte_ok (Hue h) \<and> byte_ok (Sat h) \<and> byte_ok (Val h)"
    and "frags = spec_fragment led_values first_led (nat (packet_size kb - 3))"
    and "length frags \<le> depth"
  shows "fst (set_RGB_LEDs depth E kb led_values first_led) = Inr ()
    \<and> calls (snd (set_RGB_LEDs depth E kb led_values first_led))
        = calls kb @ map fragment_call frags
    \<and> concat (map snd frags) = led_values
    \<and> (\<forall>k < length frags.
          int (length (snd (frags ! k))) \<le> (packet_size kb - 3) div 4
        \<and> fst (frags ! k) = first_led + int (length (concat (map snd (take k frags)))))
    \<and> (\<forall>f \<in> set frags.
          fragment_call f =
            HidWrite (map word_of_int
              ([0, 3, 4 * int (length (snd f))] @ led_tuples (fst f) (snd f))))"
proof -
  let ?n = "nat ((packet_size kb - 3) div 4)"
  have n: "nat (packet_size kb - 3) div 4 = ?n"
    using assms(2) by (simp add: nat_div_distrib)
  have frags: "frags = led_chunks ?n first_led led_values"
    using assms(8) n by (simp add: spec_fragment_def)
  have npos: "0 < ?n" using assms(2) by simp
  from set_RGB_LEDs_calls [OF assms(4) assms(1,2,3) refl assms(5,6,7), of depth] assms(9)
  obtain kb' where run: "set_RGB_LEDs depth E kb led_values first_led = (Inr (), kb')"
    "calls kb' = calls kb @ map fragment_call frags"
    unfolding frags by blast
  have a: "fst (set_RGB_LEDs depth E kb led_values first_led) = Inr ()"
    and b: "calls (snd (set_RGB_LEDs depth E kb led_values first_led))
        = calls kb @ map fragment_call frags"
    using run by simp_all
  have c: "concat (map snd frags) = led_values"
    unfolding frags by (rule concat_led_chunks)
  have d: "int (length (snd (frags ! k))) \<le> (packet_size kb - 3) div 4
        \<and> fst (frags ! k) = first_led + int (length (concat (map snd (take k frags))))"
    if "k < length frags" for k
  proof
    have "frags ! k \<in> set frags" using that by simp
    then have "length (snd (frags ! k)) \<le> ?n"
      unfolding frags using npos by (rule led_chunks_bounded [rotated])
    then show "int (length (snd (frags ! k))) \<le> (packet_size kb - 3) div 4"
      using npos by simp
    show "fst (frags ! k) = first_led + int (length (concat (map snd (take k frags))))"
      using that unfolding frags by (rule led_chunks_start)
  qed
  have e: "fragment_call f =
            HidWrite (map word_of_int
              ([0, 3, 4 * int (length (snd f))] @ led_tuples (fst f) (snd f)))" for f
    by (simp add: fragment_call_def construct_command_packet_def KB_Set_RGB_LEDs_def
        length_led_tuples)
  show ?thesis using a b c d e by blast
qed

theorem set_RGB_LEDs_fragments_witness:
  "spec_fragment hsv_set_info 0 29 = [(0, take 7 hsv_set_info), (7, drop 7 hsv_set_info)]
   \<and> fst (set_RGB_LEDs 2 ready_env (opened_lily58 []) hsv_set_info 0) = Inr ()
   \<and> calls (snd (set_RGB_LEDs 2 ready_env (opened_lily58 []) hsv_set_info 0)) =
       [fragment_call (0, take 7 hsv_set_info), fragment_call (7, drop 7 hsv_set_info)]
   \<and> take 7 hsv_set_info @ drop 7 hsv_set_info = hsv_set_info"
proof -
  have frags: "spec_fragment hsv_set_info 0 29 =
      [(0, take 7 hsv_set_info), (7, drop 7 hsv_set_info)]"
    by (simp add: spec_fragment_def hsv_set_info_def led_chunks.simps)
  have ok: "\<forall>h \<in> set hsv_set_info. byte_ok (Hue h) \<and> byte_ok (Sat h) \<and> byte_ok (Val h)"
    by (auto simp add: hsv_set_info_def byte_ok_def)
  have len: "length hsv_set_info = 12"
    by (simp add: hsv_set_info_def)
  show ?thesis
    using set_RGB_LEDs_fragments [of "opened_lily58 []" "[]" ready_env 0 hsv_set_info
        "spec_fragment hsv_set_info 0 29" 2] ok
    by (simp add: frags len opened_lily58_def ready_env_def)
qed

text \<open>
  C5 as stated, for every list and starting index, fails: an LED index is one byte of the
  packet. Eight LEDs from index 249 are two fragments, LEDs 249 to 255 and LED 256; the
  first is written, and the packet of the second cannot be turned into bytes, so
  \<open>set_RGB_LEDs\<close> raises ValueError and the last LED is never sent.
\<close>

theorem led_index_overflow_counterexample:
  "spec_fragment (replicate 8 \<lparr>Hue = 0, Sat = 255, Val = 255\<rparr>) 249 29 =
     [(249, replicate 7 \<lparr>Hue = 0, Sat = 255, Val = 255\<rparr>),
      (256, replicate 1 \<lparr>Hue = 0, Sat = 255, Val = 255\<rparr>)]
   \<and> fst (set_RGB_LEDs 5 ready_env (opened_lily58 [])
             (replicate 8 \<lparr>Hue = 0, Sat = 255, Val = 255\<rparr>) 249) = Inl ValueError
   \<and> calls (snd (set_RGB_LEDs 5 ready_env (opened_lily58 [])
             (replicate 8 \<lparr>Hue = 0, Sat = 255, Val = 255\<rparr>) 249)) =
       [fragment_call (249, replicate 7 \<lparr>Hue = 0, Sat = 255, Val = 255\<rparr>)]"
  by code_simp

text \<open>The two packets of that example, byte by byte.\<close>

lemma lily58_fragment_bytes:
  "fragment_call (0, take 7 hsv_set_info) =
     HidWrite [0, 3, 28, 0, 0, 255, 255, 1, 2, 255, 255, 2, 4, 255, 255, 3, 6, 255, 255,
               4, 8, 255, 255, 5, 10, 255, 255, 6, 12, 255, 255]
   \<and> fragment_call (7, drop 7 hsv_set_info) =
     HidWrite [0, 3, 20, 7, 14, 255, 255, 8, 16, 255, 255, 9, 18, 255, 255,
               10, 20, 255, 255, 11, 22, 255, 255]"
  by (simp add: fragment_call_def hsv_set_info_def construct_command_packet_def
      KB_Set_RGB_LEDs_def upt_rec [of _ "numeral n" for n])

subsection \<open>Encoding followed by decoding\<close>

text \<open>
  C1, as the code has it. Let the device hand back the bytes of
  \<open>construct_command_packet c p\<close> without the report id. What \<open>parse_commands\<close>
  makes of them depends on the command byte: the parser knows the commands 120 to 124
  (and 0), and it returns a typed event, not the payload bytes. For 123 the event
  carries the little-endian integer of the whole payload, which determines the payload
  among the byte lists of its length; for 122 it carries the first payload byte, if that
  is a member id; for 124 no data; for 0, 120 and 121 nothing is returned. Every other
  command byte, so every command the PC sends (1 to 4), is rejected as UnknownCommand,
  and an empty payload leaves a two-byte buffer, rejected as CorruptResponse.
  (Registered handlers are taken to return without raising.)
\<close>

theorem decode_of_encode:
  assumes enc: "bytearray (construct_command_packet c p) = Some bs"
    and h: "qmk kb = Some d" and rd: "hid_read E d 32 100 = (Some (tl bs), d')"
    and cb: "\<forall>c a k. fst (run_callback E c a k) = None"
  shows "fst (parse_commands E kb) =
     (if p = [] then Inl CorruptResponse
      else if c = 0 \<or> c = 120 then Inr PyNone
      else if c = 121 then (if utf8_decodable p then Inr PyNone else Inl UnicodeDecodeError)
      else if c = 122 then
        (if hd p \<le> 3 then Inr (PyDict [(''command'', PyInt 122), (''data'', PyInt (hd p))])
         else Inl ValueError)
      else if c = 123 then
        Inr (PyDict [(''command'', PyInt 123), (''data'', PyInt (int_from_bytes_little p))])
      else if c = 124 then Inr (PyDict [(''command'', PyInt 124), (''data'', PyNone)])
      else Inl UnknownCommand)
   \<and> (\<forall>q. length q = length p \<and> (\<forall>x \<in> set q. 0 \<le> x \<and> x < 256)
            \<and> int_from_bytes_little q = int_from_bytes_little p \<longrightarrow> q = p)"
    (is "?decoded \<and> ?recoverable")
proof -
  let ?kb1 = "kb\<lparr>qmk := Some d', calls := calls kb @ [HidRead 32 100]\<rparr>"
  have "map uint bs = [0, c, int (length p)] @ p"
    using bytearray_uint [OF enc] by (simp add: construct_command_packet_def)
  then have recv: "map uint (tl bs) = c # int (length p) # p"
    by (simp add: map_tl)
  have r: "read E kb 100 32 = (Inr (c # int (length p) # p), ?kb1)"
    using read_returns [OF h rd] recv by simp
  have valid: "\<forall>x \<in> set p. 0 \<le> x \<and> x < 256"
    using enc bytearray_Some_iff [of "construct_command_packet c p"]
    by (auto simp: construct_command_packet_def)
  have cbs: "\<exists>kb2. call_callback E ?kb1 c' a = (None, kb2)" for c' a
    using cb call_callback_returns [of c' ?kb1 E a] by simp
  have recoverable: ?recoverable
    using valid int_from_bytes_little_inj [of _ p] by blast
  have ?decoded
  proof (cases p)
    case Nil
    then show ?thesis by (simp add: parse_commands_def r)
  next
    case (Cons x xs)
    have x: "0 \<le> x" "x < 256" using valid Cons by simp_all
    obtain k2 where k2: "call_callback E ?kb1 122 (PyInt x) = (None, k2)"
      using cbs by blast
    obtain k3 where k3: "call_callback E ?kb1 123 (PyInt (int_from_bytes_little p)) = (None, k3)"
      using cbs by blast
    obtain k4 where k4: "call_callback E ?kb1 124 PyNone = (None, k4)"
      using cbs by blast
    have lk: "SystemMembers_lookup x = Inl ValueError" if "\<not> x \<le> 3"
      using that x by (simp add: SystemMembers_lookup_def)
    have lk': "\<exists>w. SystemMembers_lookup x = Inr w" if "x \<le> 3"
      using that x by (auto simp add: SystemMembers_lookup_def)
    have len: "take (nat (int (length p))) p = p" by simp
    have base: "parse_commands E kb =
      (if c = 0 then (Inr PyNone, ?kb1)
       else if c = 120 then (Inr PyNone, ?kb1)
       else if c = 121 then
         (if utf8_decodable p then (Inr PyNone, ?kb1) else (Inl UnicodeDecodeError, ?kb1))
       else if c = 122 then
         (case SystemMembers_lookup x of
            Inl e \<Rightarrow> (Inl e, ?kb1)
          | Inr _ \<Rightarrow> (Inr (PyDict [(''command'', PyInt c), (''data'', PyInt x)]), k2))
       else if c = 123 then
         (Inr (PyDict [(''command'', PyInt c), (''data'', PyInt (int_from_bytes_little p))]), k3)
       else if c = 124 then (Inr (PyDict [(''command'', PyInt c), (''data'', PyNone)]), k4)
       else (Inl UnknownCommand, ?kb1))"
      unfolding parse_commands_def r Commands_defs
      using k2 k3 k4 Cons len by (auto simp add: Let_def split: sum.split)
    consider "c = 0 \<or> c = 120" | "c = 121" | "c = 122" "x \<le> 3" | "c = 122" "\<not> x \<le> 3"
      | "c = 123" | "c = 124" | "c \<notin> {0, 120, 121, 122, 123, 124}"
      by blast
    then show ?thesis
    proof cases
      case 1
      then show ?thesis using Cons by (auto simp add: base)
    next
      case 2
      then show ?thesis using Cons by (simp add: base)
    next
      case 3
      with lk' obtain w where "SystemMembers_lookup x = Inr w" by blast
      with 3 show ?thesis using Cons by (simp add: base)
    next
      case 4
      with lk have "SystemMembers_lookup x = Inl ValueError" by blast
      with 4 show ?thesis using Cons by (simp add: base)
    next
      case 5
      then show ?thesis using Cons by (simp add: base)
    next
      case 6
      then show ?thesis using Cons by (simp add: base)
    next
      case 7
      then show ?thesis using Cons by (simp add: base)
    qed
  qed
  with recoverable show ?thesis by blast
qed

theorem decode_of_encode_witness:
  "fst (parse_commands ready_env (opened_lily58 [[123, 2, 1, 2]])) =
     Inr (PyDict [(''command'', PyInt 123), (''data'', PyInt 513)])
   \<and> fst (parse_commands ready_env (opened_lily58 [[122, 1, 2]])) =
     Inr (PyDict [(''command'', PyInt 122), (''data'', PyInt 2)])
   \<and> fst (parse_commands ready_env (opened_lily58 [[4, 1, 0]])) = Inl UnknownCommand
   \<and> fst (parse_commands ready_env (opened_lily58 [[123, 0]])) = Inl CorruptResponse"
  using decode_of_encode [of 123 "[1, 2]" "[0, 123, 2, 1, 2]" "opened_lily58 [[123, 2, 1, 2]]"
          "[[123, 2, 1, 2]]" ready_env "[]"]
    decode_of_encode [of 122 "[2]" "[0, 122, 1, 2]" "opened_lily58 [[122, 1, 2]]"
          "[[122, 1, 2]]" ready_env "[]"]
    decode_of_encode [of 4 "[0]" "[0, 4, 1, 0]" "opened_lily58 [[4, 1, 0]]"
          "[[4, 1, 0]]" ready_env "[]"]
    decode_of_encode [of 123 "[]" "[0, 123, 0]" "opened_lily58 [[123, 0]]"
          "[[123, 0]]" ready_env "[]"]
  by (simp add: construct_command_packet_def opened_lily58_def ready_env_def)

text \<open>
  C1 as stated fails: the packet of KB\_Set\_Fronter with the payload 5 is four bytes,
  well within the 32 of the device, and decoding it raises UnknownCommand.
\<close>

theorem outbound_command_not_decoded_counterexample:
  "bytearray (construct_command_packet KB_Set_Fronter [5]) = Some [0, 1, 1, 5]
   \<and> fst (parse_commands ready_env (opened_lily58 [tl [0, 1, 1, 5]])) = Inl UnknownCommand"
  by (simp add: construct_command_packet_def parse_commands_def read_def
      opened_lily58_def ready_env_def Commands_defs)

subsection \<open>Polling\<close>

text \<open>
  What \<open>parse_commands\<close> returns is never an integer, so the test
  \<open>command_info == Commands.PC_Switch_Fronter\<close> of the polling loops never holds.
\<close>

lemma parse_commands_not_int: "fst (parse_commands E kb) \<noteq> Inr (PyInt n)"
  by (simp add: parse_commands_def Let_def split: prod.split sum.split list.split option.split)

lemma poll_keyboards_False: "fst (poll_keyboards E keyboards) \<noteq> Inr True"
proof (induction keyboards)
  case Nil
  then show ?case by simp
next
  case (Cons keyboard rest)
  obtain r keyboard' where p: "parse_commands E keyboard = (r, keyboard')"
    by (cases "parse_commands E keyboard")
  show ?case
  proof (cases r)
    case (Inl e)
    with p show ?thesis by simp
  next
    case (Inr command_info)
    with p parse_commands_not_int [of E keyboard]
    have "\<not> py_eq_int command_info PC_Switch_Fronter"
      by (cases command_info) auto
    with p Inr Cons.IH show ?thesis
      by (cases "poll_keyboards E rest") auto
  qed
qed

lemma poll_rounds_completes: "fst (poll_rounds n E keyboards slept) \<noteq> Inr ReturnedEarly"
proof (induction n arbitrary: keyboards slept)
  case 0
  then show ?case by simp
next
  case (Suc n)
  obtain r keyboards' where p: "poll_keyboards E keyboards = (r, keyboards')"
    by (cases "poll_keyboards E keyboards")
  with poll_keyboards_False [of E keyboards] have "r \<noteq> Inr True" by simp
  with p Suc.IH show ?case
    by (cases r) (auto split: bool.splits)
qed

text \<open>
  One keyboard whose device has the packet 122, 1, 1 waiting and nothing after it.
\<close>

lemma first_round:
  "poll_keyboards ready_env [(opened_lily58 [[122, 1, 1]])\<lparr>calls := cs\<rparr>] =
     (Inr False, [(opened_lily58 [])\<lparr>calls := cs @ [HidRead 32 100]\<rparr>])"
  by (simp add: parse_commands_def read_def opened_lily58_def ready_env_def Commands_defs
        SystemMembers_lookup_def call_callback_def)

lemma idle_round:
  "poll_keyboards ready_env [(opened_lily58 [])\<lparr>calls := cs\<rparr>] =
     (Inr False, [(opened_lily58 [])\<lparr>calls := cs @ [HidRead 32 100]\<rparr>])"
  by (simp add: parse_commands_def read_def opened_lily58_def ready_env_def)

lemma idle_rounds:
  "poll_rounds n ready_env [(opened_lily58 [])\<lparr>calls := cs\<rparr>] slept =
     (Inr CompletedCycle, [(opened_lily58 [])\<lparr>calls := cs @ replicate n (HidRead 32 100)\<rparr>],
      slept + 500 * n)"
proof (induction n arbitrary: cs slept)
  case 0
  then show ?case by simp
next
  case (Suc n)
  show ?case
    by (simp add: idle_round Suc.IH replicate_app_Cons_same del: poll_keyboards.simps)
qed

lemma switch_then_idle:
  "poll_rounds (Suc n) ready_env [(opened_lily58 [[122, 1, 1]])\<lparr>calls := cs\<rparr>] slept =
     (Inr CompletedCycle,
      [(opened_lily58 [])\<lparr>calls := cs @ replicate (Suc n) (HidRead 32 100)\<rparr>],
      slept + 500 * Suc n)"
  by (simp add: first_round idle_rounds del: poll_keyboards.simps)

text \<open>
  C2. The code does not do what the claim says. For the inbound packet 122, 1, 1
  \<open>parse_commands\<close> returns the SwitchFronterRequest event, and
  \<open>poll_for_new_commands\<close> still runs all 20 rounds (20 reads, 10 seconds of
  sleep); \<open>poll_for_new_commands_fast\<close> goes on to the next keyboard. Neither loop
  returns early, on any input.
\<close>

theorem poll_never_returns_early:
  "fst (parse_commands ready_env (opened_lily58 [[122, 1, 1]]))
     = Inr (PyDict [(''command'', PyInt 122), (''data'', PyInt 1)])
   \<and> poll_for_new_commands ready_env [opened_lily58 [[122, 1, 1]]] 0
     = (Inr CompletedCycle,
        [(opened_lily58 [])\<lparr>calls := replicate 20 (HidRead 32 100)\<rparr>], 10000)
   \<and> poll_for_new_commands_fast ready_env [opened_lily58 [[122, 1, 1]], opened_lily58 [[124, 0, 0]]]
     = (Inr CompletedCycle,
        [(opened_lily58 [])\<lparr>calls := [HidRead 32 100]\<rparr>,
         (opened_lily58 [])\<lparr>calls := [HidRead 32 100]\<rparr>])
   \<and> fst (poll_for_new_commands E keyboards slept) \<noteq> Inr ReturnedEarly
   \<and> fst (poll_for_new_commands_fast E keyboards) \<noteq> Inr ReturnedEarly"
proof -
  have a: "fst (parse_commands ready_env (opened_lily58 [[122, 1, 1]]))
     = Inr (PyDict [(''command'', PyInt 122), (''data'', PyInt 1)])"
    by (simp add: parse_commands_def read_def opened_lily58_def ready_env_def Commands_defs
        SystemMembers_lookup_def call_callback_def)
  have b: "poll_for_new_commands ready_env [opened_lily58 [[122, 1, 1]]] 0
     = (Inr CompletedCycle,
        [(opened_lily58 [])\<lparr>calls := replicate 20 (HidRead 32 100)\<rparr>], 10000)"
    using switch_then_idle [of 19 "[]" 0]
    by (simp add: poll_for_new_commands_def opened_lily58_def)
  have c: "poll_for_new_commands_fast ready_env
             [opened_lily58 [[122, 1, 1]], opened_lily58 [[124, 0, 0]]]
     = (Inr CompletedCycle,
        [(opened_lily58 [])\<lparr>calls := [HidRead 32 100]\<rparr>,
         (opened_lily58 [])\<lparr>calls := [HidRead 32 100]\<rparr>])"
    by (simp add: poll_for_new_commands_fast_def parse_commands_def read_def
        opened_lily58_def ready_env_def Commands_defs SystemMembers_lookup_def call_callback_def)
  have d: "fst (poll_for_new_commands E keyboards slept) \<noteq> Inr ReturnedEarly"
    by (simp add: poll_for_new_commands_def poll_rounds_completes)
  have e: "fst (poll_for_new_commands_fast E keyboards) \<noteq> Inr ReturnedEarly"
    using poll_keyboards_False [of E keyboards]
    by (cases "poll_keyboards E keyboards")
       (auto simp: poll_for_new_commands_fast_def split: sum.splits bool.splits)
  show ?thesis using a b c d e by blast
qed

end
